theory Spec2Isabelle
  imports Main
begin

section \<open>Framing names (channel/chanutil/chanutil.go)\<close>

text \<open>
  A \<open>channel.Framing\<close> is a constructor function of the channel package, which
  chanutil only names.  The values that \<open>chanutil.Framing\<close> can return are one
  constructor each; \<open>channel.Header(t)\<close> carries its MIME type.  Go's \<open>nil\<close>
  framing is \<open>None\<close>.
\<close>

datatype framing = Chunked | Decimal | Line | LSP | RawJSON | Varint | Header string

text \<open>\<open>strings.TrimPrefix(s, prefix)\<close>: \<open>s\<close> without the leading \<open>prefix\<close>, or
  \<open>s\<close> itself when it does not start with \<open>prefix\<close>.\<close>

definition TrimPrefix :: "string \<Rightarrow> string \<Rightarrow> string" where
  "TrimPrefix s pre = (if take (length pre) s = pre then drop (length pre) s else s)"

text \<open>The package-level table \<open>framings\<close>, a Go map literal: a missing key reads
  as the zero value \<open>nil\<close>.\<close>

definition framings :: "string \<Rightarrow> framing option" where
  "framings = map_of
     [(''chunked'', Chunked),
      (''decimal'', Decimal),
      (''line'', Line),
      (''lsp'', LSP),
      (''raw'', RawJSON),
      (''varint'', Varint)]"

definition Framing :: "string \<Rightarrow> framing option" where
  "Framing name =
     (let t = TrimPrefix name ''header:''
      in if t \<noteq> name then Some (Header t) else framings name)"

section \<open>The server (server.go)\<close>

subsection \<open>Errors, codes and wire records\<close>

text \<open>
  \<open>json.RawMessage\<close> is a byte string; a \<open>nil\<close> raw message is \<open>None\<close>.
\<close>

type_synonym raw = string

text \<open>
  The values of Go's \<open>error\<close> interface that the server tells apart: the package's
  structured \<open>*Error\<close> (code, message, data), a bare \<open>Code\<close>, the errors of
  encoding/json and io that the read loop and \<open>dispatch\<close> can meet, the sentinel
  \<open>ErrServerStopped\<close>, and any other error, known by its text.  A \<open>nil\<close> error is
  \<open>None\<close> of \<open>error option\<close>.

  A message is kept as the format string that produced it, one constructor per format
  of server.go, with the arguments of the format:
  \<open>"incorrect version marker %q"\<close>, \<open>"duplicate request id %q"\<close>,
  \<open>"empty method name"\<close>, \<open>"no such method %q"\<close>, \<open>"invalid JSON request message"\<close>,
  \<open>"empty request batch"\<close>, \<open>"internal error: %v"\<close>, the text \<open>code.Error()\<close> of a
  code, and any other text.
\<close>

datatype error =
    StructuredError int message "raw option"
  | CodeError int
  | UnmarshalTypeError
  | UnsupportedTypeError
  | SyntaxError
  | EOF
  | ErrUnexpectedEOF
  | ErrServerStopped
  | OtherError string
and message =
    IncorrectVersionMarker string
  | DuplicateRequestID string
  | EmptyMethodName
  | NoSuchMethod string
  | InvalidJSONRequestMessage
  | EmptyRequestBatch
  | InternalErrorMsg error
  | CodeName int
  | Text string

text \<open>
  The code constants and the version marker are declared in files of the package that
  are not under src/; their values are those of the error table and of the data model
  of the specification.
\<close>

definition E_ParseError :: int where "E_ParseError = - 32700"
definition E_InvalidRequest :: int where "E_InvalidRequest = - 32600"
definition E_MethodNotFound :: int where "E_MethodNotFound = - 32601"
definition E_InternalError :: int where "E_InternalError = - 32603"
definition Version :: string where "Version = ''2.0''"

text \<open>
  The wire structs \<open>jrequest\<close>, \<open>jerror\<close> and \<open>jresponse\<close>, with the fields that
  server.go reads and writes (\<open>V\<close>, \<open>ID\<close>, \<open>M\<close>, \<open>P\<close>; \<open>V\<close>, \<open>ID\<close>, \<open>R\<close>,
  \<open>E\<close>).  An absent \<open>id\<close> decodes to a \<open>nil\<close> ID.
\<close>

record jrequest =
  V_req :: string
  ID_req :: "raw option"
  M_req :: string
  P_req :: "raw option"

record jerror =
  Code :: int
  Msg :: message
  Data :: "raw option"

record jresponse =
  V_rsp :: string
  ID_rsp :: "raw option"
  R_rsp :: "raw option"
  E_rsp :: "jerror option"

text \<open>\<open>Errorf\<close> builds a structured \<open>*Error\<close>, \<open>jerrorf\<close> a wire error, and
  \<open>tojerror\<close> copies the code, message and data of an \<open>*Error\<close> into a wire error.\<close>

definition Errorf :: "int \<Rightarrow> message \<Rightarrow> error" where
  "Errorf code msg = StructuredError code msg None"

definition jerrorf :: "int \<Rightarrow> message \<Rightarrow> jerror" where
  "jerrorf code msg = \<lparr>Code = code, Msg = msg, Data = None\<rparr>"

definition tojerror :: "int \<Rightarrow> message \<Rightarrow> raw option \<Rightarrow> jerror" where
  "tojerror code msg dat = \<lparr>Code = code, Msg = msg, Data = dat\<rparr>"

subsection \<open>Handlers\<close>

text \<open>
  The \<open>Request\<close> handed to a handler.  A handler's \<open>Call\<close> either returns a value
  and an error, or panics.  The returned \<open>interface{}\<close> value is known by what
  \<open>json.Marshal\<close> makes of it: its JSON text, or an unsupported-type error.
\<close>

record Request =
  req_id :: "raw option"
  req_method :: string
  req_params :: "raw option"

datatype Context = Background | Derived string

datatype result_value = JSONValue raw | Unmarshalable

datatype call_outcome = Returns result_value "error option" | Panics string

definition json_Marshal :: "result_value \<Rightarrow> raw option \<times> error option" where
  "json_Marshal v = (case v of JSONValue bs \<Rightarrow> (Some bs, None)
                     | Unmarshalable \<Rightarrow> (None, Some UnsupportedTypeError))"

type_synonym Method = "Context \<Rightarrow> Request \<Rightarrow> call_outcome"

text \<open>\<open>Assigner.Assign(name)\<close> returns a handler, or \<open>nil\<close>.\<close>

type_synonym Assigner = "string \<Rightarrow> Method option"

subsection \<open>The server state\<close>

text \<open>
  The fields of \<open>Server\<close> that the functions below read or write.  The semaphore is
  its capacity; the logger is the writer it prints to (\<open>None\<close>: the default logger,
  which discards); \<open>work\<close> is the condition variable, \<open>None\<close> when \<open>nil\<close> and
  otherwise the number of \<open>Broadcast\<close> calls it has received; \<open>inq\<close> is the list of
  queued batches (a \<open>nil\<close> list is the empty one); \<open>outq\<close> is the sequence of
  messages handed to the encoder's \<open>Encode\<close>, oldest first (whether their bytes reach
  the peer is the connection's business); \<open>used\<close> is the string set of live IDs (a
  \<open>nil\<close> set is the empty one).  \<open>closed\<close> lists the connections on which \<open>Close\<close>
  has been called.  Each function below runs under the server's mutex, or is a
  goroutine's own sequential code, so each is one step on this state.
\<close>

datatype Conn = Conn nat
datatype Writer = Writer nat

record server =
  mux :: Assigner
  sem :: int
  allow1 :: bool
  log :: "Writer option"
  reqctx :: "Request \<Rightarrow> Context"
  closer :: "Conn option"
  err :: "error option"
  work :: "nat option"
  inq :: "jrequest list list"
  outq :: "jresponse list list"
  used :: "string set"
  closed :: "Conn list"

subsection \<open>Options (opts.go) and construction\<close>

text \<open>
  A \<open>ServerOption\<close> is a Go function value \<open>func(*Server)\<close>: \<open>nil\<close>
  (\<open>None\<close>), or a function that, called on the server under construction, panics
  (\<open>Inl\<close>, with the panic's text) or returns, having updated the server.  The four
  constructors of opts.go build functions that return.
\<close>

type_synonym ServerOption = "(server \<Rightarrow> string + server) option"

definition ServerLog :: "Writer \<Rightarrow> ServerOption" where
  "ServerLog w = Some (\<lambda>s. Inr (s\<lparr>log := Some w\<rparr>))"

definition AllowV1 :: "bool \<Rightarrow> ServerOption" where
  "AllowV1 ok = Some (\<lambda>s. Inr (s\<lparr>allow1 := ok\<rparr>))"

definition Concurrency :: "int \<Rightarrow> ServerOption" where
  "Concurrency n = (let n = (if n < 1 then 1 else n) in Some (\<lambda>s. Inr (s\<lparr>sem := n\<rparr>)))"

definition ReqContext :: "(Request \<Rightarrow> Context) \<Rightarrow> ServerOption" where
  "ReqContext f = Some (\<lambda>s. Inr (s\<lparr>reqctx := f\<rparr>))"

text \<open>
  The loop \<open>for _, opt := range opts { opt(s) }\<close> of \<open>NewServer\<close>: the options
  are called in order; the call of a \<open>nil\<close> function panics, and a panic of an
  option ends the loop, since nothing recovers from it.
\<close>

fun apply_options :: "server \<Rightarrow> ServerOption list \<Rightarrow> string + server" where
  "apply_options s [] = Inr s"
| "apply_options s (opt # rest) =
     (case opt of
        None \<Rightarrow> Inl ''invalid memory address or nil pointer dereference''
      | Some f \<Rightarrow> (case f s of Inl p \<Rightarrow> Inl p | Inr s' \<Rightarrow> apply_options s' rest))"

text \<open>
  \<open>NewServer\<close> panics on a \<open>nil\<close> assigner (\<open>Inl\<close> carries the panic's text);
  otherwise it builds the server and applies the options.
\<close>

definition NewServer :: "Assigner option \<Rightarrow> ServerOption list \<Rightarrow> string + server" where
  "NewServer mux_arg opts =
     (case mux_arg of
        None \<Rightarrow> Inl ''nil assigner''
      | Some a \<Rightarrow>
          apply_options
            \<lparr>mux = a, sem = 1, allow1 = False, log = None,
             reqctx = (\<lambda>_. Background), closer = None, err = None, work = None,
             inq = [], outq = [], used = {}, closed = []\<rparr>
            opts)"

text \<open>
  The options that the constructors of opts.go build, each named by its constructor and
  argument.
\<close>

datatype built = BuiltServerLog Writer | BuiltAllowV1 bool | BuiltConcurrency int
  | BuiltReqContext "Request \<Rightarrow> Context"

fun built_option :: "built \<Rightarrow> ServerOption" where
  "built_option (BuiltServerLog w) = ServerLog w"
| "built_option (BuiltAllowV1 ok) = AllowV1 ok"
| "built_option (BuiltConcurrency n) = Concurrency n"
| "built_option (BuiltReqContext f) = ReqContext f"

text \<open>An option that is a function and returns on every server.\<close>

definition returns :: "ServerOption \<Rightarrow> bool" where
  "returns opt = (\<exists>f. opt = Some f \<and> (\<forall>s. \<exists>s'. f s = Inr s'))"

subsection \<open>Start, stop and wait\<close>

text \<open>\<open>Start\<close> binds the connection and resets the queues; the two goroutines it
  spawns are \<open>read\<close> and the loop over \<open>nextRequest\<close> below.\<close>

definition Start :: "server \<Rightarrow> Conn \<Rightarrow> server \<times> error option" where
  "Start s conn =
     (if closer s \<noteq> None then (s, Some (OtherError ''T is already started''))
      else (s\<lparr>closer := Some conn, work := Some 0, inq := [], used := {},
              err := None, outq := []\<rparr>, None))"

definition Broadcast :: "nat option \<Rightarrow> nat option" where
  "Broadcast w = map_option Suc w"

definition stop :: "server \<Rightarrow> error \<Rightarrow> server" where
  "stop s e =
     (case closer s of
        None \<Rightarrow> s
      | Some c \<Rightarrow> s\<lparr>closed := closed s @ [c], work := Broadcast (work s),
                    err := Some e, closer := None\<rparr>)"

definition Stop :: "server \<Rightarrow> server" where
  "Stop s = stop s ErrServerStopped"

text \<open>\<open>Wait\<close>, once both goroutines are done: it returns \<open>s.err\<close>.\<close>

definition Wait :: "server \<Rightarrow> error option \<times> server" where
  "Wait s = (err s, s\<lparr>work := None, used := {}\<rparr>)"

subsection \<open>The read loop\<close>

definition isRecoverableJSONError :: "error option \<Rightarrow> bool" where
  "isRecoverableJSONError e =
     (case e of
        Some UnmarshalTypeError \<Rightarrow> True
      | Some UnsupportedTypeError \<Rightarrow> True
      | _ \<Rightarrow> False)"

definition Encode :: "server \<Rightarrow> jresponse list \<Rightarrow> server" where
  "Encode s msg = s\<lparr>outq := outq s @ [msg]\<rparr>"

definition pushError :: "server \<Rightarrow> raw option \<Rightarrow> jerror \<Rightarrow> server" where
  "pushError s i e = Encode s [\<lparr>V_rsp = Version, ID_rsp = i, R_rsp = None, E_rsp = Some e\<rparr>]"

definition send :: "server \<Rightarrow> jresponse list \<Rightarrow> server" where
  "send s msg = Encode s msg"

text \<open>
  \<open>read\<close> runs over the results of the successive \<open>dec.Decode(&in)\<close> calls, each the
  decoded batch and the error.  It returns whether the loop has exited, and the state.
  When the results so far are used up the reader is blocked in \<open>Decode\<close>: the loop has
  not exited.  After a failure that is not recoverable the loop exits and the later
  results are never asked for.
\<close>

fun read :: "server \<Rightarrow> (jrequest list \<times> error option) list \<Rightarrow> bool \<times> server" where
  "read s [] = (False, s)"
| "read s ((inb, e) # ds) =
     (if isRecoverableJSONError e then
        read (pushError s None (jerrorf E_ParseError InvalidJSONRequestMessage)) ds
      else (case e of
        Some e' \<Rightarrow> (True, (stop s e')\<lparr>inq := []\<rparr>)
      | None \<Rightarrow>
          if length inb = 0 then
            read (pushError s None (jerrorf E_InvalidRequest EmptyRequestBatch)) ds
          else read (s\<lparr>inq := inq s @ [inb], work := Broadcast (work s)\<rparr>) ds))"

subsection \<open>The scheduler: dispositions\<close>

definition versionOK :: "server \<Rightarrow> string \<Rightarrow> bool" where
  "versionOK s v = (if v = [] then allow1 s else v = Version)"

record task =
  t_m :: "Method option"
  t_req :: jrequest
  t_val :: "raw option"
  t_err :: "error option"

text \<open>The conversion \<open>string(req.ID)\<close>: a \<open>nil\<close> raw message is the empty string.\<close>

definition string_of_raw :: "raw option \<Rightarrow> string" where
  "string_of_raw r = (case r of None \<Rightarrow> [] | Some bs \<Rightarrow> bs)"

text \<open>\<open>stringset.Set.Add\<close>: adds the key and reports whether it was new.\<close>

definition Add :: "string \<Rightarrow> string set \<Rightarrow> bool \<times> string set" where
  "Add k S = (k \<notin> S, insert k S)"

text \<open>
  The body of the loop over the requests of a batch in \<open>nextRequest\<close>: the chain of
  checks, in the order of the source.  The second condition,
  \<open>id != "" && !s.used.Add(id)\<close>, calls \<open>Add\<close> only for a non-empty ID.
\<close>

definition check_request :: "server \<Rightarrow> jrequest \<Rightarrow> task \<times> server" where
  "check_request s rq =
     (let t = \<lparr>t_m = None, t_req = rq, t_val = None, t_err = None\<rparr> in
      if \<not> versionOK s (V_req rq) then
        (t\<lparr>t_err := Some (Errorf E_InvalidRequest (IncorrectVersionMarker (V_req rq)))\<rparr>, s)
      else
        let i = string_of_raw (ID_req rq);
            (dup, s1) = (if i \<noteq> [] then (let (added, u) = Add i (used s)
                                              in (\<not> added, s\<lparr>used := u\<rparr>))
                         else (False, s))
        in if dup then
             (t\<lparr>t_err := Some (Errorf E_InvalidRequest (DuplicateRequestID i))\<rparr>, s1)
           else if M_req rq = [] then
             (t\<lparr>t_err := Some (Errorf E_InvalidRequest EmptyMethodName)\<rparr>, s1)
           else (case mux s1 (M_req rq) of
                   None \<Rightarrow>
                     (t\<lparr>t_err := Some (Errorf E_MethodNotFound (NoSuchMethod (M_req rq)))\<rparr>, s1)
                 | Some h \<Rightarrow> (t\<lparr>t_m := Some h\<rparr>, s1)))"

fun resolve :: "server \<Rightarrow> jrequest list \<Rightarrow> task list \<times> server" where
  "resolve s [] = ([], s)"
| "resolve s (rq # rest) =
     (let (t, s1) = check_request s rq;
          (ts, s2) = resolve s1 rest
      in (t # ts, s2))"

text \<open>
  \<open>nextRequest\<close>: it blocks while the server runs and the queue is empty, fails with
  \<open>s.err\<close> once the server is stopped, and otherwise removes the first batch from the
  queue and returns its tasks, for the function that processes them (\<open>run_batch\<close>).
\<close>

datatype next_result = Blocked | Failed "error option" | Batch "task list"

definition nextRequest :: "server \<Rightarrow> next_result \<times> server" where
  "nextRequest s =
     (case closer s of
        None \<Rightarrow> (Failed (err s), s)
      | Some c \<Rightarrow>
          (case inq s of
             [] \<Rightarrow> (Blocked, s)
           | nxt # rest \<Rightarrow>
               (let (ts, s1) = resolve (s\<lparr>inq := rest\<rparr>) nxt in (Batch ts, s1))))"

subsection \<open>The scheduler: handler execution and response assembly\<close>

text \<open>
  \<open>dispatch\<close> has no \<open>recover\<close>, and neither has any of its callers: a panic of the
  handler is the result (\<open>Inl\<close>).
\<close>

definition dispatch :: "server \<Rightarrow> Method \<Rightarrow> Request \<Rightarrow> string + (raw option \<times> error option)" where
  "dispatch s h rq =
     (case h (reqctx s rq) rq of
        Panics p \<Rightarrow> Inl p
      | Returns v (Some e) \<Rightarrow>
          (if req_id rq = None then Inr (None, None) else Inr (None, Some e))
      | Returns v None \<Rightarrow> Inr (json_Marshal v))"

definition request_of :: "task \<Rightarrow> Request" where
  "request_of t = \<lparr>req_id = ID_req (t_req t), req_method = M_req (t_req t),
                   req_params = P_req (t_req t)\<rparr>"

text \<open>
  The goroutine of one task: tasks with a preassigned error are skipped, the others
  store what \<open>dispatch\<close> returns.  (Calling a \<open>nil\<close> handler would panic; \<open>resolve\<close>
  never leaves one on a task without an error.)  The semaphore bounds how many handlers
  run at once and has no part in what they return.
\<close>

definition run_task :: "server \<Rightarrow> task \<Rightarrow> string + task" where
  "run_task s t =
     (if t_err t \<noteq> None then Inr t
      else (case t_m t of
              None \<Rightarrow> Inl ''nil Method''
            | Some h \<Rightarrow>
                (case dispatch s h (request_of t) of
                   Inl p \<Rightarrow> Inl p
                 | Inr (v, e) \<Rightarrow> Inr (t\<lparr>t_val := v, t_err := e\<rparr>))))"

text \<open>
  The task group of a batch: every task runs, and \<open>g.Wait()\<close> returns once all are
  done.  A panic in any goroutine ends the program: the result is the first panic in
  the order of the batch.
\<close>

fun run_tasks :: "server \<Rightarrow> task list \<Rightarrow> string + task list" where
  "run_tasks s [] = Inr []"
| "run_tasks s (t # ts) =
     (case run_task s t of
        Inl p \<Rightarrow> Inl p
      | Inr t' \<Rightarrow>
          (case run_tasks s ts of
             Inl p \<Rightarrow> Inl p
           | Inr ts' \<Rightarrow> Inr (t' # ts')))"

text \<open>The body of the loop of \<open>tasks.responses\<close>, and the loop.\<close>

definition response :: "task \<Rightarrow> jresponse option" where
  "response t =
     (if ID_req (t_req t) = None \<and> t_err t = None then None
      else
        let rsp = \<lparr>V_rsp = Version, ID_rsp = ID_req (t_req t), R_rsp = None, E_rsp = None\<rparr>
        in Some (case t_err t of
                   None \<Rightarrow> rsp\<lparr>R_rsp := t_val t\<rparr>
                 | Some (StructuredError c msg d) \<Rightarrow> rsp\<lparr>E_rsp := Some (tojerror c msg d)\<rparr>
                 | Some (CodeError c) \<Rightarrow> rsp\<lparr>E_rsp := Some (jerrorf c (CodeName c))\<rparr>
                 | Some e \<Rightarrow> rsp\<lparr>E_rsp := Some (jerrorf E_InternalError (InternalErrorMsg e))\<rparr>))"

fun responses :: "task list \<Rightarrow> jresponse list" where
  "responses [] = []"
| "responses (t # ts) =
     (case response t of None \<Rightarrow> responses ts | Some rsp \<Rightarrow> rsp # responses ts)"

text \<open>The function that \<open>nextRequest\<close> returns, applied to the tasks of its batch.\<close>

definition run_batch :: "server \<Rightarrow> task list \<Rightarrow> string + server" where
  "run_batch s ts =
     (case run_tasks s ts of
        Inl p \<Rightarrow> Inl p
      | Inr done_ts \<Rightarrow>
          (let rsps = responses done_ts
           in if length rsps \<noteq> 0 then Inr (send s rsps) else Inr s))"

text \<open>
  One decoded batch from arrival to reply, on its own: the reader's iteration for it,
  the scheduler's \<open>nextRequest\<close>, and the function it returned.  \<open>serve_all\<close> does so
  for one batch after the other.
\<close>

definition serve :: "server \<Rightarrow> jrequest list \<Rightarrow> string + server" where
  "serve s inb =
     (let (exited, s1) = read s [(inb, None)]
      in case nextRequest s1 of
           (Batch ts, s2) \<Rightarrow> run_batch s2 ts
         | (Blocked, s2) \<Rightarrow> Inr s2
         | (Failed e, s2) \<Rightarrow> Inr s2)"

fun serve_all :: "server \<Rightarrow> jrequest list list \<Rightarrow> string + server" where
  "serve_all s [] = Inr s"
| "serve_all s (inb # rest) =
     (case serve s inb of Inl p \<Rightarrow> Inl p | Inr s1 \<Rightarrow> serve_all s1 rest)"

text \<open>Whether running a task panics, and whether a finished task gets a response.\<close>

definition task_panics :: "server \<Rightarrow> task \<Rightarrow> bool" where
  "task_panics s t =
     (t_err t = None \<and>
      (case t_m t of
         None \<Rightarrow> True
       | Some h \<Rightarrow>
           (case h (reqctx s (request_of t)) (request_of t) of
              Panics p \<Rightarrow> True
            | Returns v e \<Rightarrow> False)))"

definition answered :: "task \<Rightarrow> bool" where
  "answered t = (ID_req (t_req t) \<noteq> None \<or> t_err t \<noteq> None)"

text \<open>
  The notifications that end with an error on their task, read off the request: the
  version marker is rejected, the method name is empty, the assigner has no handler for
  it, or the handler returns without an error a result that cannot be marshalled.  The
  first server is the one whose dispositions are computed, the second the one whose
  request context the handlers get.
\<close>

definition failed_notification :: "server \<Rightarrow> server \<Rightarrow> jrequest \<Rightarrow> bool" where
  "failed_notification s0 s rq =
     (ID_req rq = None \<and>
      (\<not> versionOK s0 (V_req rq) \<or> M_req rq = [] \<or>
       (case mux s0 (M_req rq) of
          None \<Rightarrow> True
        | Some h \<Rightarrow>
            (let r = \<lparr>req_id = None, req_method = M_req rq, req_params = P_req rq\<rparr>
             in case h (reqctx s r) r of
                  Returns v None \<Rightarrow> snd (json_Marshal v) \<noteq> None
                | Returns v (Some e) \<Rightarrow> False
                | Panics p \<Rightarrow> False))))"

subsection \<open>Frames on the wire\<close>




section \<open>The LSP channel (channel/lsp.go)\<close>

subsection \<open>The buffered reader\<close>



definition push_back :: "string \<Rightarrow> string list \<Rightarrow> string list" where
  "push_back rem rest = (if rem = [] then rest else rem # rest)"














subsection \<open>String functions of the Go library\<close>












text \<open>
  \<open>strconv.Atoi\<close> on a 64-bit platform: an optional sign, then one or more decimal
  digits, with a value in the range of \<open>int\<close>; every other string is an error
  (\<open>None\<close>).
\<close>

definition digit_val :: "char \<Rightarrow> nat option" where
  "digit_val = map_of (zip ''0123456789'' [0, 1, 2, 3, 4, 5, 6, 7, 8, 9])"

fun digits_val :: "string \<Rightarrow> nat \<Rightarrow> nat option" where
  "digits_val [] acc = Some acc"
| "digits_val (c # cs) acc =
     (case digit_val c of None \<Rightarrow> None | Some d \<Rightarrow> digits_val cs (acc * 10 + d))"

definition Atoi :: "string \<Rightarrow> int option" where
  "Atoi s =
     (let (neg, ds) =
            (case s of
               [] \<Rightarrow> (False, s)
             | c # cs \<Rightarrow> if c = CHR ''-'' then (True, cs)
                         else if c = CHR ''+'' then (False, cs) else (False, s))
      in if ds = [] then None
         else (case digits_val ds 0 of
                 None \<Rightarrow> None
               | Some n \<Rightarrow>
                   (let v = (if neg then - int n else int n)
                    in if v < - (2 ^ 63) \<or> 2 ^ 63 - 1 < v then None else Some v)))"

subsection \<open>Recv\<close>







subsection \<open>The header block of a stream\<close>






text \<open>A \<open>Content-Length\<close> value that \<open>Recv\<close> accepts: \<open>Atoi\<close> reads it as an
  integer that is not negative.\<close>

definition valid_length :: "string \<Rightarrow> bool" where
  "valid_length v = (case Atoi v of None \<Rightarrow> False | Some n \<Rightarrow> 0 \<le> n)"

subsection \<open>A server and requests to run it on\<close>

text \<open>
  Three handlers: one returns its parameters, one panics, one returns an error of no
  special type.  The server is built by \<open>NewServer\<close> with no options and started on
  a connection.
\<close>

definition echo :: Method where
  "echo ctx rq = Returns (JSONValue (case req_params rq of None \<Rightarrow> ''null'' | Some p \<Rightarrow> p)) None"

definition boom :: Method where
  "boom ctx rq = Panics ''boom''"

definition failing :: Method where
  "failing ctx rq = Returns (JSONValue ''null'') (Some (OtherError ''failed''))"

definition demo_mux :: Assigner where
  "demo_mux name =
     (if name = ''echo'' then Some echo
      else if name = ''boom'' then Some boom
      else if name = ''fail'' then Some failing
      else None)"

definition demo_server :: server where
  "demo_server =
     (case NewServer (Some demo_mux) [] of
        Inl p \<Rightarrow> undefined
      | Inr s \<Rightarrow> fst (Start s (Conn 0)))"

definition call_echo :: jrequest where
  "call_echo = \<lparr>V_req = ''2.0'', ID_req = Some ''1'', M_req = ''echo'', P_req = Some ''[7]''\<rparr>"

definition notify_echo :: jrequest where
  "notify_echo = \<lparr>V_req = ''2.0'', ID_req = None, M_req = ''echo'', P_req = None\<rparr>"

definition notify_nope :: jrequest where
  "notify_nope = \<lparr>V_req = ''2.0'', ID_req = None, M_req = ''nope'', P_req = None\<rparr>"

definition stale_call :: jrequest where
  "stale_call = \<lparr>V_req = ''1.0'', ID_req = Some ''1'', M_req = ''echo'', P_req = None\<rparr>"

definition repeat_call :: jrequest where
  "repeat_call = \<lparr>V_req = ''2.0'', ID_req = Some ''1'', M_req = ''echo'', P_req = Some ''[8]''\<rparr>"

definition notify_fail :: jrequest where
  "notify_fail = \<lparr>V_req = ''2.0'', ID_req = None, M_req = ''fail'', P_req = None\<rparr>"

definition call_boom :: jrequest where
  "call_boom = \<lparr>V_req = ''2.0'', ID_req = Some ''2'', M_req = ''boom'', P_req = None\<rparr>"

definition call_fail :: jrequest where
  "call_fail = \<lparr>V_req = ''2.0'', ID_req = Some ''3'', M_req = ''fail'', P_req = None\<rparr>"

subsection \<open>Streams to run Recv on\<close>












section \<open>Properties of the server\<close>

subsection \<open>Construction\<close>

lemma apply_options_returns:
  "\<forall>opt\<in>set opts. returns opt \<Longrightarrow> \<exists>s'. apply_options s opts = Inr s'"
proof (induction opts arbitrary: s)
  case Nil
  then show ?case by simp
next
  case (Cons opt opts)
  from Cons.prems obtain f where f: "opt = Some f" and ret: "\<forall>s. \<exists>s'. f s = Inr s'"
    by (auto simp: returns_def)
  from ret obtain s1 where s1: "f s = Inr s1" by blast
  from Cons.IH [of s1] Cons.prems obtain s' where "apply_options s1 opts = Inr s'" by auto
  with f s1 show ?case by simp
qed

lemma apply_options_panics:
  "apply_options s opts = Inl p \<Longrightarrow>
   \<exists>opt\<in>set opts.
     (opt = None \<and> p = ''invalid memory address or nil pointer dereference'') \<or>
     (\<exists>f s1. opt = Some f \<and> f s1 = Inl p)"
proof (induction opts arbitrary: s)
  case Nil
  then show ?case by simp
next
  case (Cons opt opts)
  show ?case
  proof (cases opt)
    case None
    with Cons.prems show ?thesis by auto
  next
    case (Some f)
    show ?thesis
    proof (cases "f s")
      case (Inl q)
      with Some Cons.prems have "f s = Inl p" by simp
      with Some show ?thesis by auto
    next
      case (Inr s')
      with Some Cons.prems have "apply_options s' opts = Inl p" by simp
      from Cons.IH [OF this] show ?thesis by auto
    qed
  qed
qed

lemma apply_options_built:
  "\<exists>s'. apply_options s (map built_option bs) = Inr s' \<and>
      closer s' = closer s \<and> mux s' = mux s \<and>
      ((\<forall>n. BuiltConcurrency n \<notin> set bs) \<longrightarrow> sem s' = sem s) \<and>
      ((\<forall>f. BuiltReqContext f \<notin> set bs) \<longrightarrow> reqctx s' = reqctx s)"
proof (induction bs arbitrary: s)
  case Nil
  then show ?case by simp
next
  case (Cons b bs)
  obtain s1 where s1: "built_option b = Some (\<lambda>s. Inr (s1 s))"
    and c: "\<And>s. closer (s1 s) = closer s" and m: "\<And>s. mux (s1 s) = mux s"
    and se: "\<And>s. (\<forall>n. b \<noteq> BuiltConcurrency n) \<Longrightarrow> sem (s1 s) = sem s"
    and rc: "\<And>s. (\<forall>f. b \<noteq> BuiltReqContext f) \<Longrightarrow> reqctx (s1 s) = reqctx s"
  proof (cases b)
    case (BuiltServerLog w)
    with that [of "\<lambda>s. s\<lparr>log := Some w\<rparr>"] show ?thesis by (simp add: ServerLog_def)
  next
    case (BuiltAllowV1 ok)
    with that [of "\<lambda>s. s\<lparr>allow1 := ok\<rparr>"] show ?thesis by (simp add: AllowV1_def)
  next
    case (BuiltConcurrency n)
    with that [of "\<lambda>s. s\<lparr>sem := (if n < 1 then 1 else n)\<rparr>"] show ?thesis
      by (simp add: Concurrency_def)
  next
    case (BuiltReqContext f)
    with that [of "\<lambda>s. s\<lparr>reqctx := f\<rparr>"] show ?thesis by (simp add: ReqContext_def)
  qed
  from Cons.IH [of "s1 s"] obtain s' where s': "apply_options (s1 s) (map built_option bs) = Inr s'"
    and c': "closer s' = closer (s1 s)" and m': "mux s' = mux (s1 s)"
    and se': "(\<forall>n. BuiltConcurrency n \<notin> set bs) \<longrightarrow> sem s' = sem (s1 s)"
    and rc': "(\<forall>f. BuiltReqContext f \<notin> set bs) \<longrightarrow> reqctx s' = reqctx (s1 s)"
    by blast
  have "apply_options s (map built_option (b # bs)) = Inr s'"
    using s1 s' by simp
  moreover have "closer s' = closer s" using c c' by simp
  moreover have "mux s' = mux s" using m m' by simp
  moreover have "(\<forall>n. BuiltConcurrency n \<notin> set (b # bs)) \<longrightarrow> sem s' = sem s"
    using se se' by auto
  moreover have "(\<forall>f. BuiltReqContext f \<notin> set (b # bs)) \<longrightarrow> reqctx s' = reqctx s"
    using rc rc' by auto
  ultimately show ?case by blast
qed

text \<open>
  Claim C10, as stated, fails: with a non-nil assigner \<open>NewServer\<close> still panics when
  one of the options is \<open>nil\<close>: the unguarded call \<open>opt(s)\<close> panics.
\<close>

theorem C10_nil_option_panics:
  "NewServer (Some demo_mux) [None] = Inl ''invalid memory address or nil pointer dereference''"
  by (simp add: NewServer_def)

text \<open>
  Claim C10, amended: \<open>NewServer\<close> panics when the assigner is \<open>nil\<close>; for every
  non-nil assigner it returns a server without error when every option is a function
  that returns, and a panic of \<open>NewServer\<close> is the \<open>nil\<close> dereference at an option
  that is \<open>nil\<close> or the panic of an option that panics; and when
  the options are built by the constructors of opts.go it returns a server that is
  unstarted and dispatches by the given assigner, with the concurrency capacity 1 when
  no option is a \<open>Concurrency\<close> option and the background request context when no
  option is a \<open>ReqContext\<close> option.
\<close>

theorem C10_NewServer:
  "NewServer None opts = Inl ''nil assigner'' \<and>
   ((\<forall>opt\<in>set opts. returns opt) \<longrightarrow> (\<exists>s. NewServer (Some a) opts = Inr s)) \<and>
   (NewServer (Some a) opts = Inl p \<longrightarrow>
      (\<exists>opt\<in>set opts.
         (opt = None \<and> p = ''invalid memory address or nil pointer dereference'') \<or>
         (\<exists>f s1. opt = Some f \<and> f s1 = Inl p))) \<and>
   (\<exists>s. NewServer (Some a) (map built_option bs) = Inr s \<and>
      closer s = None \<and> mux s = a \<and>
      ((\<forall>n. BuiltConcurrency n \<notin> set bs) \<longrightarrow> sem s = 1) \<and>
      ((\<forall>f. BuiltReqContext f \<notin> set bs) \<longrightarrow> reqctx s = (\<lambda>_. Background)))"
proof -
  let ?s0 = "\<lparr>mux = a, sem = 1, allow1 = False, log = None,
             reqctx = (\<lambda>_. Background), closer = None, err = None, work = None,
             inq = [], outq = [], used = {}, closed = []\<rparr>"
  have one: "NewServer None opts = Inl ''nil assigner''"
    by (simp add: NewServer_def)
  have two: "\<exists>s. NewServer (Some a) opts = Inr s" if "\<forall>opt\<in>set opts. returns opt"
    using apply_options_returns [OF that, of ?s0] by (simp add: NewServer_def)
  have three: "\<exists>opt\<in>set opts.
         (opt = None \<and> p = ''invalid memory address or nil pointer dereference'') \<or>
         (\<exists>f s1. opt = Some f \<and> f s1 = Inl p)"
    if "NewServer (Some a) opts = Inl p"
    using that apply_options_panics [of ?s0 opts p] by (simp add: NewServer_def)
  have four: "\<exists>s. NewServer (Some a) (map built_option bs) = Inr s \<and>
      closer s = None \<and> mux s = a \<and>
      ((\<forall>n. BuiltConcurrency n \<notin> set bs) \<longrightarrow> sem s = 1) \<and>
      ((\<forall>f. BuiltReqContext f \<notin> set bs) \<longrightarrow> reqctx s = (\<lambda>_. Background))"
    using apply_options_built [of ?s0 bs] by (simp add: NewServer_def)
  from one two three four show ?thesis by blast
qed

theorem C10_NewServer_witness:
  "NewServer None [Concurrency 4] = Inl ''nil assigner'' \<and>
   (\<exists>s. NewServer (Some demo_mux) [AllowV1 True] = Inr s) \<and>
   (\<exists>opt\<in>set [AllowV1 True, None].
      opt = None \<or>
      (\<exists>f s1. opt = Some f \<and>
         f s1 = Inl ''invalid memory address or nil pointer dereference'')) \<and>
   (\<exists>s. NewServer (Some demo_mux)
          (map built_option [BuiltAllowV1 True, BuiltServerLog (Writer 0)]) = Inr s \<and>
      closer s = None \<and> mux s = demo_mux \<and> sem s = 1 \<and> reqctx s = (\<lambda>_. Background))"
proof -
  have h2: "\<forall>opt\<in>set [AllowV1 True]. returns opt"
    by (simp add: returns_def AllowV1_def)
  have h3: "NewServer (Some demo_mux) [AllowV1 True, None] =
      Inl ''invalid memory address or nil pointer dereference''"
    by (simp add: NewServer_def AllowV1_def)
  have h4: "(\<forall>n. BuiltConcurrency n \<notin> set [BuiltAllowV1 True, BuiltServerLog (Writer 0)]) \<and>
      (\<forall>f. BuiltReqContext f \<notin> set [BuiltAllowV1 True, BuiltServerLog (Writer 0)])"
    by simp
  have t1: "NewServer None [Concurrency 4] = Inl ''nil assigner''"
    using C10_NewServer [where opts = "[Concurrency 4]"] by blast
  have t2: "\<exists>s. NewServer (Some demo_mux) [AllowV1 True] = Inr s"
    using C10_NewServer [where opts = "[AllowV1 True]" and a = demo_mux] h2 by blast
  have t3: "\<exists>opt\<in>set [AllowV1 True, None].
      opt = None \<or>
      (\<exists>f s1. opt = Some f \<and>
         f s1 = Inl ''invalid memory address or nil pointer dereference'')"
    using C10_NewServer [where opts = "[AllowV1 True, None]" and a = demo_mux
        and p = "''invalid memory address or nil pointer dereference''"] h3
    by blast
  have t4: "\<exists>s. NewServer (Some demo_mux)
          (map built_option [BuiltAllowV1 True, BuiltServerLog (Writer 0)]) = Inr s \<and>
      closer s = None \<and> mux s = demo_mux \<and> sem s = 1 \<and> reqctx s = (\<lambda>_. Background)"
    using C10_NewServer [where a = demo_mux
        and bs = "[BuiltAllowV1 True, BuiltServerLog (Writer 0)]"] h4
    by blast
  from t1 t2 t3 t4 show ?thesis by blast
qed

subsection \<open>The read loop and the final error\<close>

lemma demo_server_simps:
  "closer demo_server = Some (Conn 0)" "err demo_server = None" "inq demo_server = []"
  "outq demo_server = []" "used demo_server = {}" "allow1 demo_server = False"
  "mux demo_server = demo_mux" "work demo_server = Some 0" "closed demo_server = []"
  "reqctx demo_server = (\<lambda>_. Background)"
  by (simp_all add: demo_server_def NewServer_def Start_def)

lemma closer_pushError [simp]: "closer (pushError s i e) = closer s"
  by (simp add: pushError_def Encode_def)

lemma read_until_fatal:
  assumes "closer s = Some c"
    and "\<forall>d\<in>set ds. snd d = None \<or> isRecoverableJSONError (snd d)"
    and "\<not> isRecoverableJSONError (Some e)"
  shows "\<exists>s1. closer s1 = Some c \<and>
           read s (ds @ (inb, Some e) # rest) = (True, (stop s1 e)\<lparr>inq := []\<rparr>)"
  using assms
proof (induction ds arbitrary: s)
  case Nil
  then show ?case by auto
next
  case (Cons d ds)
  obtain i x where d: "d = (i, x)" by (cases d)
  from Cons.prems d have x: "x = None \<or> isRecoverableJSONError x" by simp
  have rest_ok: "\<forall>d\<in>set ds. snd d = None \<or> isRecoverableJSONError (snd d)"
    using Cons.prems by simp
  have none_not_rec: "\<not> isRecoverableJSONError None"
    by (simp add: isRecoverableJSONError_def)
  show ?case
  proof (cases "isRecoverableJSONError x")
    case True
    have "closer (pushError s None (jerrorf E_ParseError InvalidJSONRequestMessage)) = Some c"
      using Cons.prems by simp
    from Cons.IH [OF this rest_ok Cons.prems(3)] True d show ?thesis by simp
  next
    case False
    with x have xn: "x = None" by blast
    show ?thesis
    proof (cases "length i = 0")
      case True
      have "closer (pushError s None (jerrorf E_InvalidRequest EmptyRequestBatch)) = Some c"
        using Cons.prems by simp
      from Cons.IH [OF this rest_ok Cons.prems(3)] True d xn none_not_rec
      show ?thesis by simp
    next
      case False
      have "closer (s\<lparr>inq := inq s @ [i], work := Broadcast (work s)\<rparr>) = Some c"
        using Cons.prems by simp
      from Cons.IH [OF this rest_ok Cons.prems(3)] False d xn none_not_rec
      show ?thesis by simp
    qed
  qed
qed

text \<open>
  Claim C2, as stated, fails: on a running server with no recorded failure, the reader
  that observes end-of-file records \<open>io.EOF\<close> as the final error, and \<open>Wait\<close>
  returns it, not \<open>nil\<close>.
\<close>

theorem C2_clean_EOF_counterexample:
  "closer demo_server \<noteq> None \<and> err demo_server = None \<and>
   fst (read demo_server [([], Some EOF)]) = True \<and>
   fst (Wait (snd (read demo_server [([], Some EOF)]))) = Some EOF"
  by (simp add: demo_server_simps isRecoverableJSONError_def stop_def Wait_def)

text \<open>
  Claim C2, amended: for every running server whose reader, after any number of decoded
  batches and recoverable decode failures, observes end-of-file, the read loop exits and
  \<open>Wait\<close> returns \<open>io.EOF\<close> as the final error.
\<close>

theorem C2_Wait_reports_EOF:
  assumes "closer s \<noteq> None"
    and "\<forall>d\<in>set ds. snd d = None \<or> isRecoverableJSONError (snd d)"
  shows "fst (read s (ds @ [(inb, Some EOF)])) = True \<and>
         fst (Wait (snd (read s (ds @ [(inb, Some EOF)])))) = Some EOF"
proof -
  from assms(1) obtain c where c: "closer s = Some c" by blast
  have "\<not> isRecoverableJSONError (Some EOF)"
    by (simp add: isRecoverableJSONError_def)
  from read_until_fatal [OF c assms(2) this, of inb "[]"]
  obtain s1 where "closer s1 = Some c"
    and "read s (ds @ [(inb, Some EOF)]) = (True, (stop s1 EOF)\<lparr>inq := []\<rparr>)"
    by blast
  then show ?thesis by (simp add: stop_def Wait_def)
qed

theorem C2_Wait_reports_EOF_witness:
  "fst (read demo_server ([([], Some UnmarshalTypeError)] @ [([], Some EOF)])) = True \<and>
   fst (Wait (snd (read demo_server ([([], Some UnmarshalTypeError)] @ [([], Some EOF)])))) = Some EOF"
  using C2_Wait_reports_EOF [of demo_server "[([], Some UnmarshalTypeError)]" "[]"]
  by (simp add: demo_server_simps isRecoverableJSONError_def)

text \<open>
  Claim C7, as stated, fails on a server that has already been stopped: \<open>stop\<close>
  returns at once when nothing is running, so a decode failure that follows \<open>Stop\<close>
  is not recorded (the final error stays \<open>ErrServerStopped\<close>), the connection is not
  closed again and no waiter is woken; the loop just exits.
\<close>

theorem C7_stopped_server_counterexample:
  "closer (Stop demo_server) = None \<and>
   read (Stop demo_server) [([], Some SyntaxError)] = (True, Stop demo_server) \<and>
   err (Stop demo_server) = Some ErrServerStopped \<and>
   closed (Stop demo_server) = [Conn 0] \<and>
   work (Stop demo_server) = Some 1"
  by (simp add: demo_server_simps isRecoverableJSONError_def stop_def Stop_def Broadcast_def)

text \<open>
  Claim C7, amended: in the read loop, every decode failure that is a recoverable JSON
  error hands one error response with ID = null and code -32700 (ParseError) to the
  encoder, and reading continues with the next decode; every other decode failure (a
  JSON syntax error, a framing or read error, EOF) makes the loop exit, and on a server
  that is still running it is recorded as the final error, the connection is closed and
  the waiters are woken; on a server that has already been stopped nothing but the
  queue changes.
\<close>

theorem C7_read_decode_failures:
  "(isRecoverableJSONError e \<longrightarrow>
      read s ((inb, e) # ds) =
        read (s\<lparr>outq := outq s @
                 [[\<lparr>V_rsp = Version, ID_rsp = None, R_rsp = None,
                    E_rsp = Some \<lparr>Code = - 32700, Msg = InvalidJSONRequestMessage,
                                  Data = None\<rparr>\<rparr>]]\<rparr>) ds) \<and>
   (\<not> isRecoverableJSONError (Some e') \<and> closer s = Some c \<longrightarrow>
      read s ((inb, Some e') # ds) =
        (True, s\<lparr>closed := closed s @ [c], work := map_option Suc (work s),
                 err := Some e', closer := None, inq := []\<rparr>)) \<and>
   (\<not> isRecoverableJSONError (Some e') \<and> closer s = None \<longrightarrow>
      read s ((inb, Some e') # ds) = (True, s\<lparr>inq := []\<rparr>))"
  by (simp add: pushError_def Encode_def jerrorf_def E_ParseError_def stop_def Broadcast_def)

theorem C7_read_decode_failures_witness:
  "read demo_server [([], Some UnmarshalTypeError), ([], Some SyntaxError)] =
     (True, demo_server\<lparr>outq := [[\<lparr>V_rsp = Version, ID_rsp = None, R_rsp = None,
                    E_rsp = Some \<lparr>Code = - 32700, Msg = InvalidJSONRequestMessage,
                                  Data = None\<rparr>\<rparr>]],
            closed := [Conn 0], work := Some 1, err := Some SyntaxError, closer := None,
            inq := []\<rparr>) \<and>
   read (Stop demo_server) [([], Some EOF)] = (True, (Stop demo_server)\<lparr>inq := []\<rparr>)"
proof -
  let ?s1 = "demo_server\<lparr>outq := outq demo_server @
                 [[\<lparr>V_rsp = Version, ID_rsp = None, R_rsp = None,
                    E_rsp = Some \<lparr>Code = - 32700, Msg = InvalidJSONRequestMessage,
                                  Data = None\<rparr>\<rparr>]]\<rparr>"
  have r: "isRecoverableJSONError (Some UnmarshalTypeError)"
    and n1: "\<not> isRecoverableJSONError (Some SyntaxError)"
    and n2: "\<not> isRecoverableJSONError (Some EOF)"
    by (simp_all add: isRecoverableJSONError_def)
  have a: "read demo_server [([], Some UnmarshalTypeError), ([], Some SyntaxError)] =
             read ?s1 [([], Some SyntaxError)]"
    using C7_read_decode_failures [of "Some UnmarshalTypeError" demo_server "[]"
        "[([], Some SyntaxError)]"] r by blast
  have b: "read ?s1 [([], Some SyntaxError)] =
        (True, ?s1\<lparr>closed := closed ?s1 @ [Conn 0], work := map_option Suc (work ?s1),
                 err := Some SyntaxError, closer := None, inq := []\<rparr>)"
    using C7_read_decode_failures [of _ ?s1 "[]" "[]" SyntaxError "Conn 0"] n1
    by (simp add: demo_server_simps)
  have c: "read (Stop demo_server) [([], Some EOF)] = (True, (Stop demo_server)\<lparr>inq := []\<rparr>)"
    using C7_read_decode_failures [of _ "Stop demo_server" "[]" "[]" EOF] n2
    by (simp add: demo_server_simps Stop_def stop_def)
  from a b c show ?thesis by (simp add: demo_server_simps)
qed

subsection \<open>Dispositions, handler execution and response assembly\<close>

lemma resolve_append:
  "resolve s (xs @ ys) =
     (let (ts, s1) = resolve s xs; (ts', s2) = resolve s1 ys in (ts @ ts', s2))"
  by (induction xs arbitrary: s) (simp_all add: Let_def split_beta)

lemma resolve_reqs: "resolve s rqs = (ts, s') \<Longrightarrow> map t_req ts = rqs"
proof (induction rqs arbitrary: s ts s')
  case Nil
  then show ?case by simp
next
  case (Cons rq rqs)
  obtain t s1 where c: "check_request s rq = (t, s1)" by (cases "check_request s rq")
  obtain ts1 s2 where r: "resolve s1 rqs = (ts1, s2)" by (cases "resolve s1 rqs")
  have "t_req t = rq"
    using c by (auto simp: check_request_def Let_def split_beta split: if_splits option.splits)
  with Cons c r show ?case by auto
qed

lemma run_task_Inr:
  "\<not> task_panics s t \<Longrightarrow> \<exists>t'. run_task s t = Inr t' \<and> t_req t' = t_req t"
  by (auto simp: task_panics_def run_task_def dispatch_def split_beta split: option.splits
      call_outcome.splits)

lemma run_task_Inl: "task_panics s t \<Longrightarrow> \<exists>p. run_task s t = Inl p"
  by (auto simp: task_panics_def run_task_def dispatch_def split: option.splits
      call_outcome.splits)

lemma run_task_preassigned: "t_err t = Some e \<Longrightarrow> run_task s t = Inr t"
  by (simp add: run_task_def)

lemma run_tasks_Inr:
  "\<forall>t\<in>set ts. \<not> task_panics s t \<Longrightarrow> \<exists>ds. run_tasks s ts = Inr ds \<and> map t_req ds = map t_req ts"
proof (induction ts)
  case Nil
  then show ?case by simp
next
  case (Cons t ts)
  then obtain t' where "run_task s t = Inr t'" "t_req t' = t_req t"
    using run_task_Inr [of s t] by auto
  moreover from Cons obtain ds where "run_tasks s ts = Inr ds" "map t_req ds = map t_req ts"
    by auto
  ultimately show ?case by simp
qed

lemma run_tasks_Inl:
  "\<exists>t\<in>set ts. task_panics s t \<Longrightarrow> \<exists>p. run_tasks s ts = Inl p"
proof (induction ts)
  case Nil
  then show ?case by simp
next
  case (Cons t ts)
  show ?case
  proof (cases "task_panics s t")
    case True
    then show ?thesis using run_task_Inl [of s t] by auto
  next
    case False
    with Cons obtain p where "run_tasks s ts = Inl p" by auto
    then show ?thesis by (auto split: sum.splits)
  qed
qed

lemma run_tasks_keeps_preassigned:
  "run_tasks s ts = Inr ds \<Longrightarrow> t \<in> set ts \<Longrightarrow> t_err t = Some e \<Longrightarrow> t \<in> set ds"
proof (induction ts arbitrary: ds)
  case Nil
  then show ?case by simp
next
  case (Cons a ts)
  from Cons.prems(1) obtain a' ds' where a: "run_task s a = Inr a'"
    and r: "run_tasks s ts = Inr ds'" and ds: "ds = a' # ds'"
    by (auto split: sum.splits)
  show ?case
  proof (cases "t = a")
    case True
    with a Cons.prems(3) have "a' = t" by (simp add: run_task_preassigned)
    with ds show ?thesis by simp
  next
    case False
    with Cons.prems(2) have "t \<in> set ts" by simp
    from Cons.IH [OF r this Cons.prems(3)] ds show ?thesis by simp
  qed
qed

lemma response_None_iff: "response t = None \<longleftrightarrow> \<not> answered t"
  by (auto simp: response_def answered_def Let_def)

lemma responses_map_filter: "responses ts = List.map_filter response ts"
  by (induction ts) (simp_all split: option.splits)

lemma ID_rsp_response: "response t = Some rsp \<Longrightarrow> ID_rsp rsp = ID_req (t_req t)"
  by (auto simp: response_def Let_def split: if_splits option.splits error.splits)

lemma responses_IDs:
  "map ID_rsp (responses ts) = map (\<lambda>t. ID_req (t_req t)) (filter answered ts)"
proof (induction ts)
  case Nil
  then show ?case by simp
next
  case (Cons t ts)
  show ?case
  proof (cases "response t")
    case None
    then have "\<not> answered t" by (simp add: response_None_iff)
    with None Cons show ?thesis by simp
  next
    case (Some rsp)
    then have "answered t" using response_None_iff [of t] by auto
    with Some Cons ID_rsp_response [OF Some] show ?thesis by simp
  qed
qed

lemma length_responses: "length (responses ts) = length (filter answered ts)"
  using arg_cong [OF responses_IDs, of length ts] by simp

lemma response_in_responses:
  "t \<in> set ts \<Longrightarrow> response t = Some rsp \<Longrightarrow> rsp \<in> set (responses ts)"
  by (induction ts) (auto split: option.splits)

lemma answered_count:
  "length (filter answered ts) =
     length (filter (\<lambda>t. ID_req (t_req t) \<noteq> None) ts) +
     length (filter (\<lambda>t. ID_req (t_req t) = None \<and> t_err t \<noteq> None) ts)"
  by (induction ts) (auto simp: answered_def)

lemma calls_count:
  "length (filter (\<lambda>t. ID_req (t_req t) \<noteq> None) ts) =
     length (map t_req ts) - length (filter (\<lambda>rq. ID_req rq = None) (map t_req ts))"
proof (induction ts)
  case Nil
  then show ?case by simp
next
  case (Cons t ts)
  have "length (filter (\<lambda>rq. ID_req rq = None) (map t_req ts)) \<le> length (map t_req ts)"
    by (rule length_filter_le)
  with Cons show ?case by (auto simp: Suc_diff_le)
qed

lemma run_batch_Inr:
  "run_tasks s ts = Inr ds \<Longrightarrow>
   run_batch s ts =
     Inr (if responses ds = [] then s else s\<lparr>outq := outq s @ [responses ds]\<rparr>)"
  by (simp add: run_batch_def Let_def send_def Encode_def)

lemmas server_defs =
  serve_def nextRequest_def run_batch_def run_task_def dispatch_def check_request_def
  response_def request_of_def versionOK_def Version_def string_of_raw_def Add_def
  json_Marshal_def Errorf_def jerrorf_def tojerror_def E_InvalidRequest_def
  E_MethodNotFound_def E_InternalError_def E_ParseError_def send_def Encode_def
  pushError_def Broadcast_def isRecoverableJSONError_def stop_def Stop_def Wait_def
  task_panics_def failed_notification_def Let_def

lemmas demo_defs =
  demo_server_simps demo_mux_def echo_def boom_def failing_def call_echo_def
  notify_echo_def notify_nope_def notify_fail_def stale_call_def repeat_call_def call_boom_def
  call_fail_def

lemma check_request_frame: "check_request s rq = (t, s1) \<Longrightarrow> \<exists>U. s1 = s\<lparr>used := U\<rparr>"
proof -
  assume a: "check_request s rq = (t, s1)"
  have "s1 = s \<or> s1 = s\<lparr>used := insert (string_of_raw (ID_req rq)) (used s)\<rparr>"
    using a by (auto simp: check_request_def Let_def Add_def split: if_splits option.splits)
  moreover have "s = s\<lparr>used := used s\<rparr>" by simp
  ultimately show ?thesis by metis
qed


lemma check_request_duplicate:
  assumes "versionOK s (V_req rq)" and "ID_req rq = Some i" and "i \<noteq> []" and "i \<in> used s"
  shows "check_request s rq =
           (\<lparr>t_m = None, t_req = rq, t_val = None,
             t_err = Some (Errorf E_InvalidRequest (DuplicateRequestID i))\<rparr>, s)"
  using assms by (simp add: check_request_def Let_def Add_def string_of_raw_def insert_absorb)

lemma run_batch_outq:
  assumes "run_batch s ts = Inr s'"
  shows "\<exists>ds. run_tasks s ts = Inr ds \<and>
           s' = (if responses ds = [] then s else s\<lparr>outq := outq s @ [responses ds]\<rparr>)"
proof (cases "run_tasks s ts")
  case (Inl p)
  with assms show ?thesis by (simp add: run_batch_def)
next
  case (Inr ds)
  with assms run_batch_Inr [OF Inr] show ?thesis by simp
qed

lemma run_tasks_member:
  "run_tasks s ts = Inr ds \<Longrightarrow> t \<in> set ts \<Longrightarrow> \<exists>t'. run_task s t = Inr t' \<and> t' \<in> set ds"
proof (induction ts arbitrary: ds)
  case Nil
  then show ?case by simp
next
  case (Cons a ts)
  from Cons.prems(1) obtain a' ds' where a: "run_task s a = Inr a'"
    and r: "run_tasks s ts = Inr ds'" and ds: "ds = a' # ds'"
    by (auto split: sum.splits)
  show ?case
  proof (cases "t = a")
    case True
    with a ds show ?thesis by simp
  next
    case False
    with Cons.prems(2) have "t \<in> set ts" by simp
    from Cons.IH [OF r this] ds show ?thesis by auto
  qed
qed

lemma run_task_req: "run_task s t = Inr t' \<Longrightarrow> t_req t' = t_req t"
  by (auto simp: run_task_def split: if_splits option.splits sum.splits prod.splits)

lemma run_tasks_Inr_reqs: "run_tasks s ts = Inr ds \<Longrightarrow> map t_req ds = map t_req ts"
  by (induction ts arbitrary: ds) (auto split: sum.splits dest: run_task_req)



text \<open>
  Claim C3, as stated, fails for a request whose version marker is rejected: the version
  check comes first, so the reply reports the version marker, not the duplicate ID.
  Here the second request of the batch reuses the ID \<open>1\<close> that the first request of
  the same batch has just inserted into the live-ID set.
\<close>

theorem C3_version_checked_first:
  "''1'' \<in> used (snd (resolve demo_server [call_echo])) \<and>
   map_sum id outq (serve demo_server [call_echo, stale_call]) =
     Inr [[\<lparr>V_rsp = ''2.0'', ID_rsp = Some ''1'', R_rsp = Some ''[7]'', E_rsp = None\<rparr>,
           \<lparr>V_rsp = ''2.0'', ID_rsp = Some ''1'', R_rsp = None,
            E_rsp = Some \<lparr>Code = - 32600, Msg = IncorrectVersionMarker ''1.0'',
                          Data = None\<rparr>\<rparr>]]"
  by (simp add: server_defs demo_defs)

text \<open>
  Claim C3, amended: for every request of a dequeued batch whose version marker is
  accepted and whose non-empty ID is already in the live-ID set when its disposition is
  computed, the disposition is the InvalidRequest error (code -32600) reporting a
  duplicate request id, the server state and with it the live-ID set are left as they
  were, and the message emitted for the batch, when its processing function returns,
  holds that error response with the request's ID.
\<close>

theorem C3_duplicate_id:
  assumes "resolve s0 pre = (ts0, s)"
    and "versionOK s (V_req rq)" and "ID_req rq = Some i" and "i \<noteq> []" and "i \<in> used s"
    and "resolve s0 (pre @ rq # post) = (ts, s')"
    and "run_batch sx ts = Inr sy"
  shows "resolve s0 (pre @ [rq]) =
           (ts0 @ [\<lparr>t_m = None, t_req = rq, t_val = None,
                    t_err = Some (Errorf E_InvalidRequest (DuplicateRequestID i))\<rparr>], s) \<and>
         (\<exists>rsps. outq sy = outq sx @ [rsps] \<and>
            \<lparr>V_rsp = Version, ID_rsp = Some i, R_rsp = None,
             E_rsp = Some \<lparr>Code = - 32600, Msg = DuplicateRequestID i, Data = None\<rparr>\<rparr>
              \<in> set rsps)"
proof -
  let ?t = "\<lparr>t_m = None, t_req = rq, t_val = None,
             t_err = Some (Errorf E_InvalidRequest (DuplicateRequestID i))\<rparr>"
  let ?rsp = "\<lparr>V_rsp = Version, ID_rsp = Some i, R_rsp = None,
               E_rsp = Some \<lparr>Code = - 32600, Msg = DuplicateRequestID i, Data = None\<rparr>\<rparr>"
  have c: "check_request s rq = (?t, s)"
    using assms(2-5) by (rule check_request_duplicate)
  have one: "resolve s0 (pre @ [rq]) = (ts0 @ [?t], s)"
    using assms(1) c by (simp add: resolve_append)
  obtain tsp sp where p: "resolve s post = (tsp, sp)" by (cases "resolve s post")
  have "resolve s0 (pre @ rq # post) = (ts0 @ ?t # tsp, sp)"
    using assms(1) c p by (simp add: resolve_append)
  with assms(6) have ts: "ts = ts0 @ ?t # tsp" by simp
  from run_batch_outq [OF assms(7)] obtain ds where ds: "run_tasks sx ts = Inr ds"
    and sy: "sy = (if responses ds = [] then sx else sx\<lparr>outq := outq sx @ [responses ds]\<rparr>)"
    by blast
  have "?t \<in> set ts" using ts by simp
  moreover have "t_err ?t = Some (Errorf E_InvalidRequest (DuplicateRequestID i))" by simp
  ultimately have mem: "?t \<in> set ds" using ds by (rule run_tasks_keeps_preassigned [rotated])
  have "response ?t = Some ?rsp"
    using assms(3)
    by (simp add: response_def Errorf_def tojerror_def E_InvalidRequest_def)
  with mem have in_rsps: "?rsp \<in> set (responses ds)" by (rule response_in_responses)
  then have "responses ds \<noteq> []" by auto
  with sy have "outq sy = outq sx @ [responses ds]" by simp
  with in_rsps one show ?thesis by blast
qed

theorem C3_duplicate_id_witness:
  "resolve demo_server ([call_echo] @ [repeat_call]) =
     (fst (resolve demo_server [call_echo]) @
        [\<lparr>t_m = None, t_req = repeat_call, t_val = None,
          t_err = Some (Errorf E_InvalidRequest (DuplicateRequestID ''1''))\<rparr>],
      snd (resolve demo_server [call_echo])) \<and>
   (\<exists>rsps. outq (projr (run_batch demo_server
                   (fst (resolve demo_server ([call_echo] @ repeat_call # []))))) =
             outq demo_server @ [rsps] \<and>
      \<lparr>V_rsp = Version, ID_rsp = Some ''1'', R_rsp = None,
       E_rsp = Some \<lparr>Code = - 32600, Msg = DuplicateRequestID ''1'', Data = None\<rparr>\<rparr>
        \<in> set rsps)"
proof -
  let ?s = "snd (resolve demo_server [call_echo])"
  let ?ts = "fst (resolve demo_server ([call_echo] @ repeat_call # []))"
  have h1: "resolve demo_server [call_echo] = (fst (resolve demo_server [call_echo]), ?s)"
    by simp
  have h2: "versionOK ?s (V_req repeat_call)"
    by (simp add: server_defs demo_defs)
  have h3: "ID_req repeat_call = Some ''1''"
    by (simp add: repeat_call_def)
  have h4: "''1'' \<noteq> []"
    by simp
  have h5: "''1'' \<in> used ?s"
    by (simp add: server_defs demo_defs)
  have h6: "resolve demo_server ([call_echo] @ repeat_call # []) =
              (?ts, snd (resolve demo_server ([call_echo] @ repeat_call # [])))"
    by simp
  have h7: "run_batch demo_server ?ts = Inr (projr (run_batch demo_server ?ts))"
    by (simp add: server_defs demo_defs)
  from C3_duplicate_id [OF h1 h2 h3 h4 h5 h6 h7] show ?thesis .
qed

text \<open>
  Claim C4 describes what the code does not do: no statement of the server removes an ID
  from the live-ID set (\<open>Wait\<close> alone discards the whole set, once the connection
  is over).  On one connection a call with ID \<open>1\<close> is answered, and a later call
  that reuses the ID \<open>1\<close> is rejected as a duplicate.
\<close>

theorem C4_processed_id_stays_live:
  "map_sum id (\<lambda>s. (outq s, used s)) (serve_all demo_server [[call_echo], [call_echo]]) =
     Inr ([[\<lparr>V_rsp = ''2.0'', ID_rsp = Some ''1'', R_rsp = Some ''[7]'', E_rsp = None\<rparr>],
           [\<lparr>V_rsp = ''2.0'', ID_rsp = Some ''1'', R_rsp = None,
             E_rsp = Some \<lparr>Code = - 32600, Msg = DuplicateRequestID ''1'',
                           Data = None\<rparr>\<rparr>]],
          {''1''})"
  by (simp add: server_defs demo_defs)

text \<open>
  Claim C5, as stated, fails for a notification whose disposition is an error: a batch
  of one notification for an unknown method (k = n = 1, no batch-level error) is answered
  with one message holding one error response.
\<close>

theorem C5_notification_error_answered:
  "map_sum id outq (serve demo_server [notify_nope]) =
     Inr [[\<lparr>V_rsp = ''2.0'', ID_rsp = None, R_rsp = None,
            E_rsp = Some \<lparr>Code = - 32601, Msg = NoSuchMethod ''nope'', Data = None\<rparr>\<rparr>]]"
  by (simp add: server_defs demo_defs)

lemma failed_notification_used [simp]:
  "failed_notification (s0\<lparr>used := U\<rparr>) s rq = failed_notification s0 s rq"
  by (simp add: failed_notification_def versionOK_def)

lemma notification_outcome:
  assumes "check_request s0 rq = (t, sa)" and "run_task s t = Inr t'"
    and "ID_req rq = None"
  shows "t_err t' \<noteq> None \<longleftrightarrow> failed_notification s0 s rq"
proof -
  have i: "string_of_raw (ID_req rq) = []" using assms(3) by (simp add: string_of_raw_def)
  show ?thesis
  proof (cases "\<not> versionOK s0 (V_req rq) \<or> M_req rq = [] \<or> mux s0 (M_req rq) = None")
    case True
    with assms(1) i have "t_err t \<noteq> None"
      by (auto simp: check_request_def Let_def split: if_splits)
    with assms(2) have "t' = t" by (auto simp: run_task_def)
    with \<open>t_err t \<noteq> None\<close> True assms(3) show ?thesis
      by (auto simp: failed_notification_def)
  next
    case False
    then obtain h where h: "mux s0 (M_req rq) = Some h" and v: "versionOK s0 (V_req rq)"
      and m: "M_req rq \<noteq> []" by auto
    from assms(1) i h v m
    have t: "t = \<lparr>t_m = Some h, t_req = rq, t_val = None, t_err = None\<rparr>"
      by (simp add: check_request_def Let_def)
    let ?r = "\<lparr>req_id = None, req_method = M_req rq, req_params = P_req rq\<rparr>"
    have r: "request_of t = ?r" using t assms(3) by (simp add: request_of_def)
    show ?thesis
    proof (cases "h (reqctx s ?r) ?r")
      case (Panics p)
      with assms(2) t r show ?thesis by (simp add: run_task_def dispatch_def)
    next
      case (Returns val e)
      show ?thesis
      proof (cases e)
        case (Some e')
        with Returns assms(2) t r have "t_err t' = None"
          by (auto simp: run_task_def dispatch_def)
        with Returns Some h v m assms(3) show ?thesis
          by (simp add: failed_notification_def)
      next
        case None
        with Returns assms(2) t r have "t_err t' = snd (json_Marshal val)"
          by (auto simp: run_task_def dispatch_def split: prod.splits)
        with Returns None h v m assms(3) show ?thesis
          by (simp add: failed_notification_def)
      qed
    qed
  qed
qed

lemma failed_notifications_count:
  "resolve s0 rqs = (ts, s1) \<Longrightarrow> run_tasks s ts = Inr ds \<Longrightarrow>
   length (filter (\<lambda>t. ID_req (t_req t) = None \<and> t_err t \<noteq> None) ds) =
   length (filter (failed_notification s0 s) rqs)"
proof (induction rqs arbitrary: s0 ts ds s1)
  case Nil
  then show ?case by simp
next
  case (Cons rq rqs)
  obtain t sa where c: "check_request s0 rq = (t, sa)" by (cases "check_request s0 rq")
  obtain ts' sb where r: "resolve sa rqs = (ts', sb)" by (cases "resolve sa rqs")
  from Cons.prems(1) c r have ts: "ts = t # ts'" by simp
  with Cons.prems(2) obtain t' ds' where t': "run_task s t = Inr t'"
    and ds': "run_tasks s ts' = Inr ds'" and ds: "ds = t' # ds'"
    by (auto split: sum.splits)
  from check_request_frame [OF c] obtain U where sa: "sa = s0\<lparr>used := U\<rparr>" by blast
  have ih: "length (filter (\<lambda>t. ID_req (t_req t) = None \<and> t_err t \<noteq> None) ds') =
      length (filter (failed_notification s0 s) rqs)"
    using Cons.IH [OF r ds'] by (simp add: sa)
  have treq: "t_req t' = rq"
    using resolve_reqs [OF Cons.prems(1)] run_tasks_Inr_reqs [OF Cons.prems(2)] ts ds by simp
  have hd: "(ID_req (t_req t') = None \<and> t_err t' \<noteq> None) \<longleftrightarrow> failed_notification s0 s rq"
  proof (cases "ID_req rq = None")
    case True
    with notification_outcome [OF c t' True] treq show ?thesis by simp
  next
    case False
    with treq show ?thesis by (auto simp: failed_notification_def)
  qed
  from ih hd ds show ?case by simp
qed

text \<open>
  Claim C5, amended: for every inbound batch of k decoded requests of which n are
  notifications, when no handler panics the batch's processing function returns, having
  emitted no outbound message when its response list is empty and otherwise exactly one
  outbound message; the response list holds, in the order of the requests, one response
  per non-notification request and one per notification that fails before or after its
  handler runs (the version marker is rejected, the method name is empty or unknown, or
  the handler's result cannot be marshalled): k - n responses plus one per such
  notification.  An error that the handler of a notification returns is dropped.
\<close>

theorem C5_batch_reply:
  assumes "resolve s0 rqs = (ts, s1)" and "\<forall>t\<in>set ts. \<not> task_panics s t"
  shows "\<exists>ds rsps. run_tasks s ts = Inr ds \<and> map t_req ds = rqs \<and>
           run_batch s ts = Inr (if rsps = [] then s else s\<lparr>outq := outq s @ [rsps]\<rparr>) \<and>
           length rsps =
             (length rqs - length (filter (\<lambda>rq. ID_req rq = None) rqs)) +
             length (filter (failed_notification s0 s) rqs) \<and>
           length (filter (failed_notification s0 s) rqs) =
             length (filter (\<lambda>t. ID_req (t_req t) = None \<and> t_err t \<noteq> None) ds) \<and>
           map ID_rsp rsps = map (\<lambda>t. ID_req (t_req t)) (filter answered ds)"
proof -
  from run_tasks_Inr [OF assms(2)] obtain ds where ds: "run_tasks s ts = Inr ds"
    and "map t_req ds = map t_req ts" by blast
  with resolve_reqs [OF assms(1)] have reqs: "map t_req ds = rqs" by simp
  have q: "length (filter (\<lambda>t. ID_req (t_req t) = None \<and> t_err t \<noteq> None) ds) =
      length (filter (failed_notification s0 s) rqs)"
    using assms(1) ds by (rule failed_notifications_count)
  have len: "length (responses ds) =
      (length rqs - length (filter (\<lambda>rq. ID_req rq = None) rqs)) +
      length (filter (failed_notification s0 s) rqs)"
    using length_responses [of ds] answered_count [of ds] calls_count [of ds] reqs q by simp
  from q have q': "length (filter (failed_notification s0 s) rqs) =
      length (filter (\<lambda>t. ID_req (t_req t) = None \<and> t_err t \<noteq> None) ds)"
    by simp
  from ds reqs run_batch_Inr [OF ds] len q' responses_IDs [of ds] show ?thesis by blast
qed

theorem C5_batch_reply_witness:
  "\<exists>ds rsps. run_tasks demo_server
        (fst (resolve demo_server [call_echo, notify_echo, notify_nope, notify_fail])) = Inr ds \<and>
      map t_req ds = [call_echo, notify_echo, notify_nope, notify_fail] \<and>
      run_batch demo_server
        (fst (resolve demo_server [call_echo, notify_echo, notify_nope, notify_fail])) =
        Inr (if rsps = [] then demo_server
             else demo_server\<lparr>outq := outq demo_server @ [rsps]\<rparr>) \<and>
      length rsps = 2 \<and>
      map ID_rsp rsps = map (\<lambda>t. ID_req (t_req t)) (filter answered ds)"
proof -
  let ?rqs = "[call_echo, notify_echo, notify_nope, notify_fail]"
  have h1: "resolve demo_server ?rqs = (fst (resolve demo_server ?rqs), snd (resolve demo_server ?rqs))"
    by simp
  have h2: "\<forall>t\<in>set (fst (resolve demo_server ?rqs)). \<not> task_panics demo_server t"
    by (simp add: server_defs demo_defs)
  have n: "(length ?rqs - length (filter (\<lambda>rq. ID_req rq = None) ?rqs)) +
      length (filter (failed_notification demo_server demo_server) ?rqs) = 2"
    by (simp add: server_defs demo_defs)
  from C5_batch_reply [OF h1 h2] obtain ds rsps
    where a: "run_tasks demo_server (fst (resolve demo_server ?rqs)) = Inr ds \<and>
      map t_req ds = ?rqs \<and>
      run_batch demo_server (fst (resolve demo_server ?rqs)) =
        Inr (if rsps = [] then demo_server
             else demo_server\<lparr>outq := outq demo_server @ [rsps]\<rparr>) \<and>
      length rsps =
        (length ?rqs - length (filter (\<lambda>rq. ID_req rq = None) ?rqs)) +
        length (filter (failed_notification demo_server demo_server) ?rqs) \<and>
      length (filter (failed_notification demo_server demo_server) ?rqs) =
        length (filter (\<lambda>t. ID_req (t_req t) = None \<and> t_err t \<noteq> None) ds) \<and>
      map ID_rsp rsps = map (\<lambda>t. ID_req (t_req t)) (filter answered ds)"
    by (elim exE) (rule that)
  from a n have "length rsps = 2" by (elim conjE) (simp only:)
  with a show ?thesis by (intro exI [of _ ds] exI [of _ rsps]) (elim conjE, intro conjI)
qed

text \<open>
  Claim C1, as stated, fails: nothing in \<open>dispatch\<close>, in the batch's processing
  function or in \<open>nextRequest\<close> recovers from a panic.  A call to a handler that
  panics ends the processing of its batch with that panic, and no response is emitted.
\<close>

theorem C1_handler_panic_escapes:
  "serve demo_server [call_boom] = Inl ''boom''"
  by (simp add: server_defs demo_defs)

text \<open>
  Claim C1, amended: a panic of a resolved handler is not caught: it propagates out of
  \<open>dispatch\<close> and out of the processing function of every batch that holds the
  request, so that no response is emitted for that batch.  What the server surfaces as
  InternalError (code -32603) is a call whose handler returns an error that is neither
  a structured error nor a bare code: when the batch's processing function returns, the
  message it emits holds that error response with the request's ID.
\<close>

theorem C1_panics_and_internal_errors:
  "(h (reqctx s rq) rq = Panics p \<longrightarrow> dispatch s h rq = Inl p) \<and>
   (t \<in> set ts \<and> task_panics s t \<longrightarrow> (\<exists>p'. run_batch s ts = Inl p')) \<and>
   (t \<in> set ts \<and> t_err t = None \<and> t_m t = Some h \<and> ID_req (t_req t) = Some i \<and>
    h (reqctx s (request_of t)) (request_of t) = Returns v (Some e) \<and>
    (\<forall>c msg d. e \<noteq> StructuredError c msg d) \<and> (\<forall>c. e \<noteq> CodeError c) \<and>
    run_batch s ts = Inr s' \<longrightarrow>
      (\<exists>rsps. outq s' = outq s @ [rsps] \<and>
         \<lparr>V_rsp = Version, ID_rsp = Some i, R_rsp = None,
          E_rsp = Some \<lparr>Code = - 32603, Msg = InternalErrorMsg e, Data = None\<rparr>\<rparr>
           \<in> set rsps))"
proof -
  have one: "dispatch s h rq = Inl p" if "h (reqctx s rq) rq = Panics p"
    using that by (simp add: dispatch_def)
  have two: "\<exists>p'. run_batch s ts = Inl p'" if "t \<in> set ts" "task_panics s t"
  proof -
    from that have "\<exists>t\<in>set ts. task_panics s t" by blast
    from run_tasks_Inl [OF this] show ?thesis by (auto simp: run_batch_def)
  qed
  have three: "\<exists>rsps. outq s' = outq s @ [rsps] \<and>
         \<lparr>V_rsp = Version, ID_rsp = Some i, R_rsp = None,
          E_rsp = Some \<lparr>Code = - 32603, Msg = InternalErrorMsg e, Data = None\<rparr>\<rparr>
           \<in> set rsps"
    if mem: "t \<in> set ts" and ne: "t_err t = None" and m: "t_m t = Some h"
      and i: "ID_req (t_req t) = Some i"
      and call: "h (reqctx s (request_of t)) (request_of t) = Returns v (Some e)"
      and e1: "\<forall>c msg d. e \<noteq> StructuredError c msg d" and e2: "\<forall>c. e \<noteq> CodeError c"
      and run: "run_batch s ts = Inr s'"
  proof -
    let ?rsp = "\<lparr>V_rsp = Version, ID_rsp = Some i, R_rsp = None,
          E_rsp = Some \<lparr>Code = - 32603, Msg = InternalErrorMsg e, Data = None\<rparr>\<rparr>"
    from run_batch_outq [OF run] obtain ds where ds: "run_tasks s ts = Inr ds"
      and s': "s' = (if responses ds = [] then s else s\<lparr>outq := outq s @ [responses ds]\<rparr>)"
      by blast
    from run_tasks_member [OF ds mem] obtain t' where t': "run_task s t = Inr t'"
      and in_ds: "t' \<in> set ds" by blast
    have "req_id (request_of t) = Some i" using i by (simp add: request_of_def)
    with t' ne m call have t'_eq: "t' = t\<lparr>t_val := None, t_err := Some e\<rparr>"
      by (simp add: run_task_def dispatch_def)
    have "response t' = Some ?rsp"
      using e1 e2 i unfolding t'_eq
      by (cases e) (simp_all add: response_def jerrorf_def E_InternalError_def)
    with in_ds have in_rsps: "?rsp \<in> set (responses ds)" by (rule response_in_responses)
    then have "responses ds \<noteq> []" by auto
    with s' have "outq s' = outq s @ [responses ds]" by simp
    with in_rsps show ?thesis by blast
  qed
  from one two three show ?thesis by blast
qed

theorem C1_panics_and_internal_errors_witness:
  "dispatch demo_server boom (request_of (hd (fst (resolve demo_server [call_boom])))) = Inl ''boom'' \<and>
   (\<exists>p'. run_batch demo_server (fst (resolve demo_server [call_echo, call_boom])) = Inl p') \<and>
   (\<exists>rsps. outq (projr (run_batch demo_server (fst (resolve demo_server [call_echo, call_fail])))) =
              outq demo_server @ [rsps] \<and>
      \<lparr>V_rsp = Version, ID_rsp = Some ''3'', R_rsp = None,
       E_rsp = Some \<lparr>Code = - 32603, Msg = InternalErrorMsg (OtherError ''failed''),
                     Data = None\<rparr>\<rparr> \<in> set rsps)"
proof -
  let ?tb = "hd (fst (resolve demo_server [call_boom]))"
  let ?ts2 = "fst (resolve demo_server [call_echo, call_boom])"
  let ?ts3 = "fst (resolve demo_server [call_echo, call_fail])"
  let ?tf = "last ?ts3"
  have a: "boom (reqctx demo_server (request_of ?tb)) (request_of ?tb) = Panics ''boom''"
    by (simp add: boom_def)
  have b: "last ?ts2 \<in> set ?ts2 \<and> task_panics demo_server (last ?ts2)"
    by (simp add: server_defs demo_defs)
  have c: "?tf \<in> set ?ts3 \<and> t_err ?tf = None \<and> t_m ?tf = Some failing \<and>
      ID_req (t_req ?tf) = Some ''3'' \<and>
      failing (reqctx demo_server (request_of ?tf)) (request_of ?tf) =
        Returns (JSONValue ''null'') (Some (OtherError ''failed'')) \<and>
      (\<forall>c msg d. OtherError ''failed'' \<noteq> StructuredError c msg d) \<and>
      (\<forall>c. OtherError ''failed'' \<noteq> CodeError c) \<and>
      run_batch demo_server ?ts3 = Inr (projr (run_batch demo_server ?ts3))"
    by (simp add: server_defs demo_defs)
  have t1: "dispatch demo_server boom (request_of ?tb) = Inl ''boom''"
    using C1_panics_and_internal_errors [of boom demo_server "request_of ?tb" "''boom''"] a
    by blast
  have t2: "\<exists>p'. run_batch demo_server ?ts2 = Inl p'"
    using C1_panics_and_internal_errors [of _ demo_server _ _ "last ?ts2" ?ts2] b
    by blast
  have t3: "\<exists>rsps. outq (projr (run_batch demo_server ?ts3)) = outq demo_server @ [rsps] \<and>
      \<lparr>V_rsp = Version, ID_rsp = Some ''3'', R_rsp = None,
       E_rsp = Some \<lparr>Code = - 32603, Msg = InternalErrorMsg (OtherError ''failed''),
                     Data = None\<rparr>\<rparr> \<in> set rsps"
    using C1_panics_and_internal_errors [of failing demo_server _ _ ?tf ?ts3 "''3''"
        "JSONValue ''null''" "OtherError ''failed''" "projr (run_batch demo_server ?ts3)"] c
    by blast
  from t1 t2 t3 show ?thesis by blast
qed

subsection \<open>The shape of a reply\<close>








section \<open>Properties of the framing catalogue\<close>

lemma TrimPrefix_append: "TrimPrefix (pre @ t) pre = t"
  by (simp add: TrimPrefix_def)

lemma Framing_header: "Framing (''header:'' @ t) = Some (Header t)"
proof -
  have "length t \<noteq> length (''header:'' @ t)" by simp
  then have "t \<noteq> ''header:'' @ t" by metis
  then show ?thesis
    unfolding Framing_def Let_def TrimPrefix_append by simp
qed

text \<open>
  Claim C8, as stated, fails at the name \<open>nul\<close>: the table has no such key and the
  name does not start with \<open>header:\<close>, so \<open>Framing\<close> returns \<open>nil\<close>.
\<close>

theorem C8_nul_is_unknown: "Framing ''nul'' = None"
  by (simp add: Framing_def TrimPrefix_def framings_def)

text \<open>
  Claim C8, amended: \<open>Framing\<close> maps each of \<open>raw\<close>, \<open>line\<close>, \<open>decimal\<close>,
  \<open>varint\<close>, \<open>lsp\<close> and \<open>chunked\<close> to its (non-nil) framing, maps every string
  with the prefix \<open>header:\<close> to the header framing for the MIME type that follows the
  prefix, and maps \<open>nul\<close>, which is not in the table, to \<open>nil\<close>.
\<close>

theorem C8_framing_catalogue:
  "Framing ''raw'' = Some RawJSON \<and>
   Framing ''line'' = Some Line \<and>
   Framing ''decimal'' = Some Decimal \<and>
   Framing ''varint'' = Some Varint \<and>
   Framing ''lsp'' = Some LSP \<and>
   Framing ''chunked'' = Some Chunked \<and>
   Framing ''nul'' = None \<and>
   (\<forall>t. Framing (''header:'' @ t) = Some (Header t))"
  by (simp add: Framing_header) (simp add: Framing_def TrimPrefix_def framings_def)

theorem C8_framing_catalogue_witness:
  "Framing ''lsp'' = Some LSP \<and>
   Framing ''header:application/json'' = Some (Header ''application/json'')"
  using C8_framing_catalogue by simp

section \<open>Properties of the LSP channel\<close>










lemma concat_push_back [simp]: "concat (push_back x rest) = x @ concat rest"
  by (simp add: push_back_def)





lemma digits_val_digits:
  "digits_val ds acc = Some n \<Longrightarrow> \<forall>c\<in>set ds. c \<in> set ''0123456789''"
proof (induction ds arbitrary: acc)
  case Nil
  then show ?case by simp
next
  case (Cons c cs)
  from Cons.prems obtain d where d: "digit_val c = Some d"
    and rest: "digits_val cs (acc * 10 + d) = Some n"
    by (auto split: option.splits)
  from d have "c \<in> set ''0123456789''"
    by (auto simp: digit_val_def split: if_splits)
  with Cons.IH [OF rest] show ?case by simp
qed

lemma valid_length_shape:
  assumes "valid_length v"
  shows "\<exists>ds. ds \<noteq> [] \<and> (\<forall>c\<in>set ds. c \<in> set ''0123456789'') \<and>
           (v = ds \<or> v = CHR ''+'' # ds \<or> v = CHR ''-'' # ds)"
proof -
  from assms obtain n where a: "Atoi v = Some n"
    by (auto simp: valid_length_def split: option.splits)
  define ds where "ds = (case v of [] \<Rightarrow> v
      | c # cs \<Rightarrow> if c = CHR ''-'' \<or> c = CHR ''+'' then cs else v)"
  from a have ne: "ds \<noteq> []" and "\<exists>m. digits_val ds 0 = Some m"
    by (auto simp: Atoi_def ds_def Let_def split: list.splits if_splits option.splits)
  then have "\<forall>c\<in>set ds. c \<in> set ''0123456789''"
    using digits_val_digits by blast
  moreover have "v = ds \<or> v = CHR ''+'' # ds \<or> v = CHR ''-'' # ds"
    by (auto simp: ds_def split: list.splits)
  ultimately show ?thesis using ne by blast
qed














end
